theory Spec2Isabelle
  imports Main
begin

section \<open>The reverse geocoder of map-picker.js\<close>

text \<open>
  The class \<open>ReverseGeocoder\<close> of \<^verbatim>\<open>src/map-picker/map-picker.js\<close> caches
  addresses, shares one promise among callers of a key that is being fetched, answers
  the first call of a burst at once and queues the others behind a trailing call.

  JavaScript runs the class on one thread: a call of \<open>getAddressFromCoordinates\<close>, the
  continuation of a settled \<open>fetch\<close> and a timeout callback each run to completion.
  The embedding therefore is a transition system. Its state is the object's fields plus
  the part of the environment the class talks to (promises, requests under way, pending
  timeouts, the clock); its events are the four things that can happen to the object.
\<close>

subsection \<open>Values, keys, promises\<close>

text \<open>
  The code uses \<open>lat\<close> and \<open>lng\<close> only through their string conversion (in the template
  literal of the cache key and in \<open>URLSearchParams\<close>), so a number is represented by
  that string.
\<close>

type_synonym number = string

text \<open>An address: a string, or \<open>null\<close> (\<open>None\<close>).\<close>

type_synonym address = "string option"

definition cacheKey :: "number \<Rightarrow> number \<Rightarrow> string" where
  "cacheKey lat lng = lat @ '','' @ lng"

datatype pstate = Pending | Fulfilled address | Rejected

text \<open>
  What a call of the \<open>async\<close> method hands to its caller: a promise that is already
  fulfilled with a cached value, or one that follows the promise with the given number
  (\<open>immediatePromise\<close>, the promise found in \<open>pendingRequests\<close>, or \<open>trailingPromise\<close>).
\<close>

datatype handle = Resolved address | Follows nat

text \<open>
  The code that waits for a request: the \<open>then\<close>/\<open>finally\<close> chain of an immediate call
  (it closes over \<open>cacheKey\<close> and settles \<open>immediatePromise\<close>), or the rest of
  \<open>#executeTrailing\<close> after its \<open>await\<close> (it closes over \<open>cacheKey\<close>).
\<close>

datatype cont = Immediate string nat | Trailing string

subsection \<open>The request\<close>

text \<open>
  \<open>#fetchAddress\<close> sends the request when it is called and settles later. What comes
  back from the network is an event of the environment; \<open>fetchAddress\<close> below is the
  part of the method after \<open>await fetch(...)\<close>: a rejected or aborted \<open>fetch\<close>, a
  response that is not \<open>ok\<close> and a body that is not JSON are rethrown, and
  \<open>data.display_name || null\<close> turns a missing or empty name into \<open>null\<close>.
\<close>

datatype outcome = Fetch_rejected | Status_not_ok | Json_rejected | Display_name "string option"

datatype error = FetchError | HttpError | JsonError

fun fetchAddress :: "outcome \<Rightarrow> error + address" where
  "fetchAddress Fetch_rejected = Inl FetchError"
| "fetchAddress Status_not_ok = Inl HttpError"
| "fetchAddress Json_rejected = Inl JsonError"
| "fetchAddress (Display_name None) = Inr None"
| "fetchAddress (Display_name (Some d)) = Inr (if d = [] then None else Some d)"

subsection \<open>The state\<close>

text \<open>
  The first six fields are the fields of the object (\<open>debounceTimer\<close> holds the time at
  which the pending trailing timeout is due, \<open>None\<close> when none is pending). The others
  are the environment: the promises created so far, by number; the requests that have
  not settled, by number, with the code waiting for each; the arguments of every
  request sent so far, in order; the times at which the pending timeouts of the
  \<open>finally\<close> callback are due, oldest first; and the clock in milliseconds.
\<close>

record state =
  cache :: "string \<rightharpoonup> address"
  pendingRequests :: "string \<rightharpoonup> nat"
  debounceTimer :: "nat option"
  hasExecutedImmediately :: bool
  pendingResolvers :: "nat list"
  lastArgs :: "(number \<times> number) option"
  promises :: "pstate list"
  inflight :: "nat \<rightharpoonup> cont"
  fetchLog :: "(number \<times> number) list"
  slotTimers :: "nat list"
  now :: nat

definition DEBOUNCE_DELAY :: nat where
  "DEBOUNCE_DELAY = 1000"

definition init :: state where
  "init = \<lparr> cache = Map.empty, pendingRequests = Map.empty, debounceTimer = None,
            hasExecutedImmediately = False, pendingResolvers = [], lastArgs = None,
            promises = [], inflight = Map.empty, fetchLog = [], slotTimers = [], now = 0 \<rparr>"

text \<open>Calling a promise's \<open>resolve\<close> function settles it only if it is still pending.\<close>

definition resolve :: "address \<Rightarrow> pstate list \<Rightarrow> nat \<Rightarrow> pstate list" where
  "resolve v ps p = (if p < length ps \<and> ps ! p = Pending then ps[p := Fulfilled v] else ps)"

text \<open>\<open>this.pendingResolvers.forEach(resolve => resolve(result))\<close>\<close>

definition resolveAll :: "nat list \<Rightarrow> address \<Rightarrow> pstate list \<Rightarrow> pstate list" where
  "resolveAll ws v ps = foldl (resolve v) ps ws"

subsection \<open>The methods\<close>

text \<open>
  \<open>getAddressFromCoordinates\<close>, up to its \<open>return\<close>. The clock of the state is the time
  of the call.
\<close>

definition getAddressFromCoordinates :: "number \<Rightarrow> number \<Rightarrow> state \<Rightarrow> handle \<times> state" where
  "getAddressFromCoordinates lat lng s =
     (let k = cacheKey lat lng in
      case cache s k of
        Some v \<Rightarrow> (Resolved v, s)
      | None \<Rightarrow>
         (case pendingRequests s k of
            Some p \<Rightarrow> (Follows p, s)
          | None \<Rightarrow>
             if \<not> hasExecutedImmediately s then
               (let p = length (promises s); f = length (fetchLog s) in
                (Follows p,
                 s\<lparr> hasExecutedImmediately := True,
                    fetchLog := fetchLog s @ [(lat, lng)],
                    inflight := (inflight s)(f \<mapsto> Immediate k p),
                    promises := promises s @ [Pending],
                    pendingRequests := (pendingRequests s)(k \<mapsto> p) \<rparr>))
             else
               (let p = length (promises s) in
                (Follows p,
                 s\<lparr> lastArgs := Some (lat, lng),
                    promises := promises s @ [Pending],
                    pendingResolvers := pendingResolvers s @ [p],
                    debounceTimer := Some (now s + DEBOUNCE_DELAY) \<rparr>))))"

text \<open>\<open>#executeTrailing\<close>, up to its \<open>await\<close>.\<close>

definition executeTrailing :: "state \<Rightarrow> state" where
  "executeTrailing s =
     (case lastArgs s of
        None \<Rightarrow> s
      | Some (lat, lng) \<Rightarrow>
          s\<lparr> fetchLog := fetchLog s @ [(lat, lng)],
             inflight := (inflight s)(length (fetchLog s) \<mapsto> Trailing (cacheKey lat lng)) \<rparr>)"

text \<open>
  The code that runs when a request settles. For an immediate call: the \<open>then\<close>
  callback (skipped when the request failed), the \<open>finally\<close> callback, which sets the
  timeout that will reset the flag, and the settlement of \<open>immediatePromise\<close>. For a
  trailing call: the \<open>try\<close>, \<open>catch\<close> and \<open>finally\<close> blocks of \<open>#executeTrailing\<close>.
\<close>

fun settled :: "cont \<Rightarrow> error + address \<Rightarrow> state \<Rightarrow> state" where
  "settled (Immediate k p) (Inr result) s =
     s\<lparr> cache := (cache s)(k \<mapsto> result),
        pendingRequests := (pendingRequests s)(k := None),
        promises := (resolveAll (pendingResolvers s) result (promises s))[p := Fulfilled result],
        pendingResolvers := [],
        slotTimers := slotTimers s @ [now s + DEBOUNCE_DELAY] \<rparr>"
| "settled (Immediate k p) (Inl e) s =
     s\<lparr> promises := (promises s)[p := Rejected],
        slotTimers := slotTimers s @ [now s + DEBOUNCE_DELAY] \<rparr>"
| "settled (Trailing k) (Inr result) s =
     s\<lparr> cache := (cache s)(k \<mapsto> result),
        promises := resolveAll (pendingResolvers s) result (promises s),
        pendingResolvers := [],
        pendingRequests := (pendingRequests s)(k := None),
        lastArgs := None \<rparr>"
| "settled (Trailing k) (Inl e) s =
     s\<lparr> promises := resolveAll (pendingResolvers s) None (promises s),
        pendingResolvers := [],
        pendingRequests := (pendingRequests s)(k := None),
        lastArgs := None \<rparr>"

text \<open>The callback of the timeout set in \<open>finally\<close>.\<close>

definition slotRelease :: "state \<Rightarrow> state" where
  "slotRelease s =
     (let s1 = s\<lparr> hasExecutedImmediately := False \<rparr> in
      if pendingResolvers s1 \<noteq> [] \<and> lastArgs s1 \<noteq> None then executeTrailing s1 else s1)"

subsection \<open>Events\<close>

text \<open>
  Four things happen to the object: a call of \<open>getAddressFromCoordinates\<close>, the
  settlement of a request (with what came back from the network; the abort after
  5000 ms that \<open>#fetchAddress\<close> arms is a rejected \<open>fetch\<close>), the callback of the timeout
  set in \<open>finally\<close>, and the callback of the trailing timeout. The callbacks that follow
  a settlement run as microtasks, with no call and no timeout between them, so a
  settlement is one event.

  Each event carries the time at which it happens, in milliseconds. Time does not run
  backwards. A request settles only while it is under way. A timeout runs only when it
  is pending and due, and, both timeouts having the same delay, not before one that is
  due strictly earlier; it may run late. An event that cannot happen gives \<open>None\<close>.
\<close>

datatype event =
    Call nat number number
  | Settle nat nat outcome
  | SlotTimeout nat
  | DebounceTimeout nat

fun earlier :: "nat option \<Rightarrow> nat \<Rightarrow> bool" where
  "earlier None d = False"
| "earlier (Some d') d = (d' < d)"

fun step :: "state \<Rightarrow> event \<Rightarrow> state option" where
  "step s (Call t lat lng) =
     (if t < now s then None
      else Some (snd (getAddressFromCoordinates lat lng (s\<lparr> now := t \<rparr>))))"
| "step s (Settle t f out) =
     (if t < now s then None
      else case inflight s f of
             None \<Rightarrow> None
           | Some c \<Rightarrow>
               Some (settled c (fetchAddress out) (s\<lparr> now := t, inflight := (inflight s)(f := None) \<rparr>)))"
| "step s (SlotTimeout t) =
     (if t < now s then None
      else case slotTimers s of
             [] \<Rightarrow> None
           | d # ds \<Rightarrow>
               if t < d \<or> earlier (debounceTimer s) d then None
               else Some (slotRelease (s\<lparr> now := t, slotTimers := ds \<rparr>)))"
| "step s (DebounceTimeout t) =
     (if t < now s then None
      else case debounceTimer s of
             None \<Rightarrow> None
           | Some d \<Rightarrow>
               if t < d \<or> earlier (case slotTimers s of [] \<Rightarrow> None | d' # ds \<Rightarrow> Some d') d then None
               else Some (executeTrailing (s\<lparr> now := t, debounceTimer := None \<rparr>)))"

fun run :: "state \<Rightarrow> event list \<Rightarrow> state option" where
  "run s [] = Some s"
| "run s (e # es) = (case step s e of None \<Rightarrow> None | Some s' \<Rightarrow> run s' es)"

text \<open>
  The handles that the calls of a run return to their callers, in order.
\<close>

fun returned :: "state \<Rightarrow> event list \<Rightarrow> handle list" where
  "returned s [] = []"
| "returned s (Call t lat lng # es) =
     (case step s (Call t lat lng) of
        None \<Rightarrow> []
      | Some s' \<Rightarrow> fst (getAddressFromCoordinates lat lng (s\<lparr> now := t \<rparr>)) # returned s' es)"
| "returned s (e # es) = (case step s e of None \<Rightarrow> [] | Some s' \<Rightarrow> returned s' es)"

subsection \<open>Properties of runs used to state the results\<close>

fun contKey :: "cont \<Rightarrow> string" where
  "contKey (Immediate k p) = k"
| "contKey (Trailing k) = k"

text \<open>
  \<open>sameAnswer k v s es\<close>: along the run of \<open>es\<close> from \<open>s\<close>, every request for the
  key \<open>k\<close> that settles with success delivers \<open>v\<close>.
\<close>

fun answers :: "string \<Rightarrow> address \<Rightarrow> state \<Rightarrow> event \<Rightarrow> bool" where
  "answers k v s (Settle t f out) =
     (case inflight s f of
        None \<Rightarrow> True
      | Some c \<Rightarrow> contKey c \<noteq> k \<or> fetchAddress out = Inr v \<or> isl (fetchAddress out))"
| "answers k v s e = True"

fun sameAnswer :: "string \<Rightarrow> address \<Rightarrow> state \<Rightarrow> event list \<Rightarrow> bool" where
  "sameAnswer k v s [] = True"
| "sameAnswer k v s (e # es) =
     (case step s e of None \<Rightarrow> True | Some s' \<Rightarrow> answers k v s e \<and> sameAnswer k v s' es)"

text \<open>
  \<open>noTrailingSettle k s es\<close>: along the run of \<open>es\<close> from \<open>s\<close>, no trailing request for
  the key \<open>k\<close> settles.
\<close>

fun settlesTrailing :: "string \<Rightarrow> state \<Rightarrow> event \<Rightarrow> bool" where
  "settlesTrailing k s (Settle t f out) = (inflight s f = Some (Trailing k))"
| "settlesTrailing k s e = False"

fun noTrailingSettle :: "string \<Rightarrow> state \<Rightarrow> event list \<Rightarrow> bool" where
  "noTrailingSettle k s [] = True"
| "noTrailingSettle k s (e # es) =
     (case step s e of
        None \<Rightarrow> True
      | Some s' \<Rightarrow> \<not> settlesTrailing k s e \<and> noTrailingSettle k s' es)"


text \<open>
  \<open>stuck k p s\<close>: the key \<open>k\<close> has the entry \<open>p\<close> in \<open>pendingRequests\<close> and the promise \<open>p\<close>
  is rejected.
\<close>

definition stuck :: "string \<Rightarrow> nat \<Rightarrow> state \<Rightarrow> bool" where
  "stuck k p s \<longleftrightarrow>
     pendingRequests s k = Some p \<and> p < length (promises s) \<and> promises s ! p = Rejected"

subsection \<open>Example runs\<close>

text \<open>
  A call that is answered at once, and a call for other coordinates 100 ms later,
  while the first request is under way.
\<close>

definition twoCalls :: "event list" where
  "twoCalls = [Call 0 ''39.8283'' ''-98.5795'', Call 100 ''40.7128'' ''-74.006'']"

text \<open>
  The same, and the trailing timeout 1000 ms after the second call, while the first
  request is still under way.
\<close>

definition twoCallsTrailing :: "event list" where
  "twoCallsTrailing = twoCalls @ [DebounceTimeout 1100]"

text \<open>Both requests of that run fail.\<close>

definition allFail :: "event list" where
  "allFail = [Settle 200 0 Fetch_rejected, DebounceTimeout 1100, Settle 1200 1 Status_not_ok]"



text \<open>
  What follows the settlement of the first request of \<open>twoCalls\<close> at 200 ms: a call for
  the second coordinates, the timeout of \<open>finally\<close>, the settlement of the request it
  sends, and a call for the first coordinates.
\<close>

definition afterFirst :: "event list" where
  "afterFirst = [Call 300 ''40.7128'' ''-74.006'', SlotTimeout 1200,
                 Settle 1250 1 (Display_name (Some ''New York'')),
                 Call 1300 ''39.8283'' ''-98.5795'']"

text \<open>
  A call, its request settling after 50 ms, a call for other coordinates at 900 ms, the
  timeout of \<open>finally\<close> at 1050 ms, which sends the trailing request (number 1), a second
  call for the same coordinates at 1100 ms, which finds no cache entry and the flag down
  and sends an immediate request (number 2), and the success of that request at 1500 ms.
  Request 1 is still under way and the trailing timeout of the call at 900 ms is due at
  1900 ms.
\<close>

definition refetch :: "event list" where
  "refetch = [Call 0 ''39.8283'' ''-98.5795'',
              Settle 50 0 (Display_name (Some ''Smith County, Kansas'')),
              Call 900 ''40.7128'' ''-74.006'',
              SlotTimeout 1050,
              Call 1100 ''40.7128'' ''-74.006'',
              Settle 1500 2 (Display_name (Some ''New York''))]"

text \<open>
  A call, a call for other coordinates 10 ms later, the success of the first request at
  20 ms, which resolves the queue, the trailing timeout at 1010 ms, which sends a
  request (number 1) for the second coordinates all the same, the timeout of \<open>finally\<close>
  at 1020 ms, and a second call for the second coordinates at 1030 ms, which sends
  an immediate request (number 2): two requests for the same key are under way.
\<close>

definition sameKeyTwice :: "event list" where
  "sameKeyTwice = [Call 0 ''39.8283'' ''-98.5795'',
                   Call 10 ''40.7128'' ''-74.006'',
                   Settle 20 0 (Display_name (Some ''Smith County, Kansas'')),
                   DebounceTimeout 1010,
                   SlotTimeout 1020,
                   Call 1030 ''40.7128'' ''-74.006'']"

subsection \<open>Calls within a window of a run\<close>











text \<open>
  The key of \<open>lastArgs\<close>, and the requests for the key \<open>k\<close> that were sent between two
  states of a run, whatever sent them.
\<close>

definition lastKey :: "state \<Rightarrow> string option" where
  "lastKey s = map_option (\<lambda>(lat, lng). cacheKey lat lng) (lastArgs s)"

definition sentFor :: "string \<Rightarrow> state \<Rightarrow> state \<Rightarrow> (number \<times> number) list" where
  "sentFor k s s' =
     filter (\<lambda>(lat, lng). cacheKey lat lng = k) (drop (length (fetchLog s)) (fetchLog s'))"


subsection \<open>Further example runs\<close>


text \<open>
  A call, the success of its request at 5 ms, a call for other coordinates at 10 ms,
  which is queued, and the timeout of \<open>finally\<close> at 1005 ms, which sends a trailing
  request for the second coordinates: the flag is down, the second key has no entry in
  the cache nor in \<open>pendingRequests\<close>, \<open>lastArgs\<close> still holds the second coordinates and
  the trailing timeout is pending, due at 1010 ms.
\<close>

definition staleArgs :: "event list" where
  "staleArgs = [Call 0 ''39.8283'' ''-98.5795'',
                Settle 5 0 (Display_name (Some ''Smith County, Kansas'')),
                Call 10 ''40.7128'' ''-74.006'',
                SlotTimeout 1005]"




subsection \<open>Invariants of the reachable states\<close>

text \<open>Every request under way has a number below the number of requests sent.\<close>

definition inv_fetch :: "state \<Rightarrow> bool" where
  "inv_fetch s \<longleftrightarrow> (\<forall>f c. inflight s f = Some c \<longrightarrow> f < length (fetchLog s))"

text \<open>
  The promise of an immediate request under way exists, is pending and is not in the
  queue; every queued resolver belongs to a promise that exists and is pending.
\<close>

definition inv_promises :: "state \<Rightarrow> bool" where
  "inv_promises s \<longleftrightarrow>
     (\<forall>f k p. inflight s f = Some (Immediate k p) \<longrightarrow>
        p < length (promises s) \<and> promises s ! p = Pending \<and> p \<notin> set (pendingResolvers s)) \<and>
     (\<forall>w \<in> set (pendingResolvers s). w < length (promises s) \<and> promises s ! w = Pending)"

text \<open>
  While the flag is down no timeout of \<open>finally\<close> is pending; while an immediate request
  is under way the flag is up and no such timeout is pending; at most one such timeout
  is pending and at most one immediate request is under way.
\<close>

definition inv_slot :: "state \<Rightarrow> bool" where
  "inv_slot s \<longleftrightarrow>
     (\<not> hasExecutedImmediately s \<longrightarrow> slotTimers s = []) \<and>
     (\<forall>f k p. inflight s f = Some (Immediate k p) \<longrightarrow>
        hasExecutedImmediately s \<and> slotTimers s = []) \<and>
     length (slotTimers s) \<le> 1 \<and>
     (\<forall>f k p f' k' p'. inflight s f = Some (Immediate k p) \<longrightarrow>
        inflight s f' = Some (Immediate k' p') \<longrightarrow> f' = f)"

text \<open>
  A key with an entry in \<open>pendingRequests\<close> has none in \<open>cache\<close>, and the entry of the
  key of an immediate request under way, if there is one, is that request's promise.
\<close>

definition inv_keys :: "state \<Rightarrow> bool" where
  "inv_keys s \<longleftrightarrow>
     (\<forall>k p. pendingRequests s k = Some p \<longrightarrow> cache s k = None) \<and>
     (\<forall>f k p p'. inflight s f = Some (Immediate k p) \<longrightarrow>
        pendingRequests s k = Some p' \<longrightarrow> p' = p)"

definition invariant :: "state \<Rightarrow> bool" where
  "invariant s \<longleftrightarrow> inv_fetch s \<and> inv_promises s \<and> inv_slot s \<and> inv_keys s"

section \<open>Basic facts\<close>

subsection \<open>Resolving promises\<close>

lemma length_resolve: "length (resolve v ps q) = length ps"
  by (simp add: resolve_def)

lemma nth_resolve:
  "resolve v ps q ! p =
     (if p = q \<and> p < length ps \<and> ps ! p = Pending then Fulfilled v else ps ! p)"
  by (auto simp: resolve_def nth_list_update)

lemma length_resolveAll: "length (resolveAll ws v ps) = length ps"
  unfolding resolveAll_def by (induction ws arbitrary: ps) (simp_all add: length_resolve)

lemma nth_resolveAll:
  "resolveAll ws v ps ! p =
     (if p \<in> set ws \<and> p < length ps \<and> ps ! p = Pending then Fulfilled v else ps ! p)"
  unfolding resolveAll_def
proof (induction ws arbitrary: ps)
  case Nil
  show ?case by simp
next
  case (Cons w ws)
  show ?case
    by (simp add: Cons.IH length_resolve nth_resolve)
qed

subsection \<open>The twelve ways an event can happen\<close>

lemma step_cases [consumes 1, case_names hit attach immediate queue imm_ok imm_fail trail_ok trail_fail
    slot_idle slot_trailing debounce_idle debounce_trailing]:
  assumes "step s e = Some s'"
  obtains
    (hit) t lat lng v where "e = Call t lat lng" "now s \<le> t"
      "cache s (cacheKey lat lng) = Some v" "s' = s\<lparr>now := t\<rparr>"
  | (attach) t lat lng p where "e = Call t lat lng" "now s \<le> t"
      "cache s (cacheKey lat lng) = None" "pendingRequests s (cacheKey lat lng) = Some p"
      "s' = s\<lparr>now := t\<rparr>"
  | (immediate) t lat lng where "e = Call t lat lng" "now s \<le> t"
      "cache s (cacheKey lat lng) = None" "pendingRequests s (cacheKey lat lng) = None"
      "\<not> hasExecutedImmediately s"
      "s' = s\<lparr> now := t, hasExecutedImmediately := True,
                fetchLog := fetchLog s @ [(lat, lng)],
                inflight := (inflight s)(length (fetchLog s) \<mapsto> Immediate (cacheKey lat lng) (length (promises s))),
                promises := promises s @ [Pending],
                pendingRequests := (pendingRequests s)(cacheKey lat lng \<mapsto> length (promises s)) \<rparr>"
  | (queue) t lat lng where "e = Call t lat lng" "now s \<le> t"
      "cache s (cacheKey lat lng) = None" "pendingRequests s (cacheKey lat lng) = None"
      "hasExecutedImmediately s"
      "s' = s\<lparr> now := t, lastArgs := Some (lat, lng),
                promises := promises s @ [Pending],
                pendingResolvers := pendingResolvers s @ [length (promises s)],
                debounceTimer := Some (t + DEBOUNCE_DELAY) \<rparr>"
  | (imm_ok) t f out k p result where "e = Settle t f out" "now s \<le> t"
      "inflight s f = Some (Immediate k p)" "fetchAddress out = Inr result"
      "s' = s\<lparr> now := t, inflight := (inflight s)(f := None),
                cache := (cache s)(k \<mapsto> result),
                pendingRequests := (pendingRequests s)(k := None),
                promises := (resolveAll (pendingResolvers s) result (promises s))[p := Fulfilled result],
                pendingResolvers := [],
                slotTimers := slotTimers s @ [t + DEBOUNCE_DELAY] \<rparr>"
  | (imm_fail) t f out k p err where "e = Settle t f out" "now s \<le> t"
      "inflight s f = Some (Immediate k p)" "fetchAddress out = Inl err"
      "s' = s\<lparr> now := t, inflight := (inflight s)(f := None),
                promises := (promises s)[p := Rejected],
                slotTimers := slotTimers s @ [t + DEBOUNCE_DELAY] \<rparr>"
  | (trail_ok) t f out k result where "e = Settle t f out" "now s \<le> t"
      "inflight s f = Some (Trailing k)" "fetchAddress out = Inr result"
      "s' = s\<lparr> now := t, inflight := (inflight s)(f := None),
                cache := (cache s)(k \<mapsto> result),
                promises := resolveAll (pendingResolvers s) result (promises s),
                pendingResolvers := [],
                pendingRequests := (pendingRequests s)(k := None),
                lastArgs := None \<rparr>"
  | (trail_fail) t f out k err where "e = Settle t f out" "now s \<le> t"
      "inflight s f = Some (Trailing k)" "fetchAddress out = Inl err"
      "s' = s\<lparr> now := t, inflight := (inflight s)(f := None),
                promises := resolveAll (pendingResolvers s) None (promises s),
                pendingResolvers := [],
                pendingRequests := (pendingRequests s)(k := None),
                lastArgs := None \<rparr>"
  | (slot_idle) t d ds where "e = SlotTimeout t" "now s \<le> t" "slotTimers s = d # ds"
      "pendingResolvers s = [] \<or> lastArgs s = None"
      "s' = s\<lparr> now := t, slotTimers := ds, hasExecutedImmediately := False \<rparr>"
  | (slot_trailing) t d ds lat lng where "e = SlotTimeout t" "now s \<le> t" "slotTimers s = d # ds"
      "pendingResolvers s \<noteq> []" "lastArgs s = Some (lat, lng)"
      "s' = s\<lparr> now := t, slotTimers := ds, hasExecutedImmediately := False,
                fetchLog := fetchLog s @ [(lat, lng)],
                inflight := (inflight s)(length (fetchLog s) \<mapsto> Trailing (cacheKey lat lng)) \<rparr>"
  | (debounce_idle) t d where "e = DebounceTimeout t" "now s \<le> t" "debounceTimer s = Some d"
      "lastArgs s = None"
      "s' = s\<lparr> now := t, debounceTimer := None \<rparr>"
  | (debounce_trailing) t d lat lng where "e = DebounceTimeout t" "now s \<le> t"
      "debounceTimer s = Some d" "lastArgs s = Some (lat, lng)"
      "s' = s\<lparr> now := t, debounceTimer := None,
                fetchLog := fetchLog s @ [(lat, lng)],
                inflight := (inflight s)(length (fetchLog s) \<mapsto> Trailing (cacheKey lat lng)) \<rparr>"
proof (cases e)
  case (Call t lat lng)
  with assms show ?thesis
    using hit [of t lat lng] attach [of t lat lng] immediate [of t lat lng] queue [of t lat lng]
    by (auto simp: getAddressFromCoordinates_def Let_def split: if_splits option.splits)
next
  case (Settle t f out)
  with assms obtain c where c: "inflight s f = Some c" "now s \<le> t"
    "s' = settled c (fetchAddress out) (s\<lparr>now := t, inflight := (inflight s)(f := None)\<rparr>)"
    by (auto split: if_splits option.splits)
  show ?thesis
  proof (cases c)
    case (Immediate k p)
    with c Settle show ?thesis
      using imm_ok [of t f out k p] imm_fail [of t f out k p]
      by (cases "fetchAddress out") auto
  next
    case (Trailing k)
    with c Settle show ?thesis
      using trail_ok [of t f out k] trail_fail [of t f out k]
      by (cases "fetchAddress out") auto
  qed
next
  case (SlotTimeout t)
  with assms show ?thesis
    using slot_idle [of t] slot_trailing [of t]
    by (cases "lastArgs s")
       (auto simp: slotRelease_def executeTrailing_def Let_def split: if_splits list.splits)
next
  case (DebounceTimeout t)
  with assms show ?thesis
    using debounce_idle [of t] debounce_trailing [of t]
    by (cases "lastArgs s")
       (auto simp: executeTrailing_def Let_def split: if_splits option.splits list.splits)
qed

subsection \<open>The invariants hold in every reachable state\<close>

lemma inv_fetch_step:
  assumes "inv_fetch s" "step s e = Some s'"
  shows "inv_fetch s'"
  using assms(2) assms(1)
  by (cases rule: step_cases) (auto simp: inv_fetch_def less_Suc_eq split: if_splits)

lemma inv_slot_step:
  assumes "inv_slot s" "step s e = Some s'"
  shows "inv_slot s'"
  using assms(2) assms(1)
  by (cases rule: step_cases) (auto simp: inv_slot_def split: if_splits)

lemma inv_promises_step:
  assumes "inv_promises s" "inv_slot s" "step s e = Some s'"
  shows "inv_promises s'"
  using assms(3) assms(1,2)
  by (cases rule: step_cases)
     (auto simp: inv_promises_def inv_slot_def nth_append nth_list_update nth_resolveAll
                 length_resolveAll less_Suc_eq
           split: if_splits)

lemma inv_keys_step:
  assumes "inv_keys s" "inv_slot s" "step s e = Some s'"
  shows "inv_keys s'"
  using assms(3) assms(1,2)
  by (cases rule: step_cases)
     (auto simp: inv_keys_def inv_slot_def split: if_splits)

lemma invariant_init: "invariant init"
  by (simp add: invariant_def inv_fetch_def inv_promises_def inv_slot_def inv_keys_def init_def)

lemma invariant_step: "invariant s \<Longrightarrow> step s e = Some s' \<Longrightarrow> invariant s'"
  unfolding invariant_def
  using inv_fetch_step inv_slot_step inv_promises_step inv_keys_step by blast

lemma invariant_run: "invariant s \<Longrightarrow> run s es = Some s' \<Longrightarrow> invariant s'"
proof (induction es arbitrary: s)
  case Nil
  then show ?case by simp
next
  case (Cons e es)
  from Cons.prems(2) obtain s1 where s1: "step s e = Some s1" "run s1 es = Some s'"
    by (auto split: option.splits)
  from Cons.prems(1) s1(1) have "invariant s1" by (rule invariant_step)
  then show ?case using s1(2) by (rule Cons.IH)
qed

lemma reachable_invariant: "run init es = Some s \<Longrightarrow> invariant s"
  using invariant_init by (rule invariant_run)

lemma run_append:
  "run s (es @ es') = (case run s es of None \<Rightarrow> None | Some s1 \<Rightarrow> run s1 es')"
  by (induction es arbitrary: s) (auto split: option.splits)

lemmas model_defs =
  getAddressFromCoordinates_def executeTrailing_def slotRelease_def resolveAll_def resolve_def
  cacheKey_def init_def DEBOUNCE_DELAY_def Let_def

section \<open>The claims\<close>

subsection \<open>C9: a successful immediate request resolves the whole queue\<close>

text \<open>
  Claim C9. When the request of an immediate call for the key \<open>k\<close> settles with the
  value \<open>v\<close>, the cache gets the entry \<open>(k, v)\<close>, the caller's promise and every promise
  queued at that moment are fulfilled with \<open>v\<close>, whatever coordinates the queued
  callers asked for (the queue holds resolvers only, no keys), and the queue is empty
  afterwards. The settlement can happen at any time from the current one on.
\<close>

theorem immediate_success_resolves_queue:
  assumes "run init es = Some s"
    and "inflight s f = Some (Immediate k p)"
    and "fetchAddress out = Inr v"
    and "now s \<le> t"
  shows "\<exists>s'. step s (Settle t f out) = Some s' \<and>
           cache s' k = Some v \<and>
           promises s' ! p = Fulfilled v \<and>
           (\<forall>w \<in> set (pendingResolvers s). promises s' ! w = Fulfilled v) \<and>
           pendingResolvers s' = []"
proof -
  from assms(1) have "invariant s" by (rule reachable_invariant)
  then have inv: "inv_promises s" by (simp add: invariant_def)
  from inv assms(2) have p: "p < length (promises s)"
    by (auto simp: inv_promises_def)
  from inv have w: "\<And>w. w \<in> set (pendingResolvers s) \<Longrightarrow>
      w < length (promises s) \<and> promises s ! w = Pending"
    by (auto simp: inv_promises_def)
  show ?thesis
    using assms(2-4) p w
    by (auto simp: nth_list_update nth_resolveAll length_resolveAll)
qed

text \<open>
  In the run \<open>twoCalls\<close> the second caller asked for other coordinates than the first;
  the first request settles at 200 ms and fulfils the second caller's promise (number 1)
  with the first key's address.
\<close>

theorem immediate_success_resolves_queue_witness:
  "inflight (the (run init twoCalls)) 0 = Some (Immediate ''39.8283,-98.5795'' 0) \<and>
   pendingResolvers (the (run init twoCalls)) = [1] \<and>
   cache (the (step (the (run init twoCalls))
      (Settle 200 0 (Display_name (Some ''Smith County, Kansas''))))) ''39.8283,-98.5795''
     = Some (Some ''Smith County, Kansas'') \<and>
   promises (the (step (the (run init twoCalls))
      (Settle 200 0 (Display_name (Some ''Smith County, Kansas''))))) ! 1
     = Fulfilled (Some ''Smith County, Kansas'') \<and>
   pendingResolvers (the (step (the (run init twoCalls))
      (Settle 200 0 (Display_name (Some ''Smith County, Kansas''))))) = []"
proof -
  let ?s = "the (run init twoCalls)"
  have r: "run init twoCalls = Some ?s" by (simp add: twoCalls_def model_defs)
  have i: "inflight ?s 0 = Some (Immediate ''39.8283,-98.5795'' 0)"
    by (simp add: twoCalls_def model_defs)
  have o: "fetchAddress (Display_name (Some ''Smith County, Kansas''))
      = Inr (Some ''Smith County, Kansas'')"
    by simp
  have n: "now ?s \<le> 200" by (simp add: twoCalls_def model_defs)
  have q: "pendingResolvers ?s = [1]" by (simp add: twoCalls_def model_defs)
  from immediate_success_resolves_queue [OF r i o n] q i show ?thesis
    by auto
qed

subsection \<open>C6: a failed request rejects the immediate caller but resolves the queue with null\<close>



subsection \<open>C10: the promise of a queued call is never rejected\<close>

text \<open>
  A promise that is not rejected and does not belong to an immediate request under way
  stays so: only the failure of an immediate request rejects a promise, and it rejects
  its own.
\<close>

lemma waiter_step:
  assumes "step s e = Some s'"
    and "p < length (promises s)" "promises s ! p \<noteq> Rejected"
    and "\<forall>f k. inflight s f \<noteq> Some (Immediate k p)"
  shows "p < length (promises s') \<and> promises s' ! p \<noteq> Rejected \<and>
         (\<forall>f k. inflight s' f \<noteq> Some (Immediate k p))"
  using assms
proof (cases rule: step_cases)
  case (imm_ok t f out k q result)
  with assms(4) have "q \<noteq> p" by auto
  with imm_ok assms(2-4) show ?thesis
    by (auto simp: nth_resolveAll length_resolveAll split: if_splits)
next
  case (imm_fail t f out k q err)
  with assms(4) have "q \<noteq> p" by auto
  with imm_fail assms(2-4) show ?thesis
    by (auto split: if_splits)
qed (auto simp: nth_append nth_resolveAll length_resolveAll split: if_splits)

lemma waiter_run:
  assumes "run s es = Some s'"
    and "p < length (promises s)" "promises s ! p \<noteq> Rejected"
    and "\<forall>f k. inflight s f \<noteq> Some (Immediate k p)"
  shows "p < length (promises s') \<and> promises s' ! p \<noteq> Rejected"
  using assms
proof (induction es arbitrary: s)
  case Nil
  then show ?case by simp
next
  case (Cons e es)
  from Cons.prems(1) obtain s1 where s1: "step s e = Some s1" "run s1 es = Some s'"
    by (auto split: option.splits)
  from waiter_step [OF s1(1) Cons.prems(2-4)] Cons.IH [OF s1(2)] show ?case by blast
qed

text \<open>
  Claim C10. A call that is queued (no cache entry, no entry in \<open>pendingRequests\<close>, flag
  up) returns a handle on a new promise, and whatever happens afterwards, failures of
  every request included, that promise is pending or fulfilled (with a string or
  \<open>null\<close>), never rejected.
\<close>

theorem queued_promise_never_rejected:
  assumes "run init es = Some s"
    and "cache s (cacheKey lat lng) = None"
    and "pendingRequests s (cacheKey lat lng) = None"
    and "hasExecutedImmediately s"
    and "run s (Call t lat lng # es') = Some s'"
  shows "fst (getAddressFromCoordinates lat lng (s\<lparr>now := t\<rparr>)) = Follows (length (promises s)) \<and>
         length (promises s) < length (promises s') \<and>
         (promises s' ! length (promises s) = Pending \<or>
          (\<exists>v. promises s' ! length (promises s) = Fulfilled v))"
proof -
  let ?p = "length (promises s)"
  from assms(1) have "invariant s" by (rule reachable_invariant)
  then have inv: "inv_promises s" by (simp add: invariant_def)
  from assms(5) obtain s1 where s1: "step s (Call t lat lng) = Some s1" "run s1 es' = Some s'"
    by (auto split: option.splits if_splits)
  from s1(1) assms(2-4) have q:
    "?p < length (promises s1)" "promises s1 ! ?p \<noteq> Rejected" "inflight s1 = inflight s"
    by (auto simp: getAddressFromCoordinates_def Let_def split: if_splits)
  from inv q(3) have "\<forall>f k. inflight s1 f \<noteq> Some (Immediate k ?p)"
    by (auto simp: inv_promises_def)
  from waiter_run [OF s1(2) q(1,2) this]
  have "?p < length (promises s')" "promises s' ! ?p \<noteq> Rejected" by simp_all
  moreover have "fst (getAddressFromCoordinates lat lng (s\<lparr>now := t\<rparr>)) = Follows ?p"
    using assms(2-4) by (simp add: getAddressFromCoordinates_def Let_def)
  ultimately show ?thesis
    by (cases "promises s' ! ?p") auto
qed

text \<open>
  After a first call the second one is queued on promise 1; then both requests fail
  (\<open>allFail\<close>): the first caller's promise is rejected, the queued one is fulfilled with
  \<open>null\<close>.
\<close>

theorem queued_promise_never_rejected_witness:
  "fst (getAddressFromCoordinates ''40.7128'' ''-74.006''
         ((the (run init [Call 0 ''39.8283'' ''-98.5795'']))\<lparr>now := 100\<rparr>)) = Follows 1 \<and>
   promises (the (run init (twoCalls @ allFail)))
     = [Rejected, Fulfilled None]"
proof -
  let ?s = "the (run init [Call 0 ''39.8283'' ''-98.5795''])"
  let ?s' = "the (run init (twoCalls @ allFail))"
  have r: "run init [Call 0 ''39.8283'' ''-98.5795''] = Some ?s" by (simp add: model_defs)
  have c: "cache ?s (cacheKey ''40.7128'' ''-74.006'') = None" by (simp add: model_defs)
  have q: "pendingRequests ?s (cacheKey ''40.7128'' ''-74.006'') = None" by (simp add: model_defs)
  have h: "hasExecutedImmediately ?s" by (simp add: model_defs)
  have r': "run ?s (Call 100 ''40.7128'' ''-74.006'' # allFail) = Some ?s'"
    by (simp add: allFail_def twoCalls_def model_defs)
  have l: "length (promises ?s) = 1" by (simp add: model_defs)
  have v: "promises ?s' = [Rejected, Fulfilled None]"
    by (simp add: allFail_def twoCalls_def model_defs)
  from queued_promise_never_rejected [OF r c q h r'] l v show ?thesis
    by simp
qed

subsection \<open>C8: calls for a key attach to its immediate request while its entry lasts\<close>










text \<open>
  When \<open>lastArgs\<close> holds the coordinates of the key already, a timeout sends a request
  for it while the immediate one is under way: after \<open>staleArgs\<close>, a call for the second
  key at 1007 ms dispatches and the trailing timeout at 1010 ms sends one more request
  for the key, with no settlement in between.
\<close>

lemma stale_args_sent_again:
  "cache (the (run init staleArgs)) ''40.7128,-74.006'' = None \<and>
   pendingRequests (the (run init staleArgs)) ''40.7128,-74.006'' = None \<and>
   \<not> hasExecutedImmediately (the (run init staleArgs)) \<and>
   lastKey (the (run init staleArgs)) = Some ''40.7128,-74.006'' \<and>
   sentFor ''40.7128,-74.006'' (the (run init staleArgs))
     (the (run init (staleArgs @ [Call 1007 ''40.7128'' ''-74.006'', DebounceTimeout 1010])))
     = [(''40.7128'', ''-74.006''), (''40.7128'', ''-74.006'')]"
  by (simp add: staleArgs_def lastKey_def sentFor_def model_defs)



subsection \<open>C2: only immediate requests exclude one another\<close>

text \<open>
  Claim C2 says that at most one request is under way at any time and that a trailing
  request never starts while the immediate one is unsettled. The code does not check
  this: \<open>#executeTrailing\<close> sends its request whenever a timeout runs and \<open>lastArgs\<close> is
  set. In \<open>twoCallsTrailing\<close> the immediate request (number 0) is still under way when
  the trailing timeout, 1000 ms after the second call, sends request number 1: both are
  under way at once.
\<close>

theorem deferred_overlaps_immediate:
  "inflight (the (run init twoCallsTrailing)) 0 = Some (Immediate ''39.8283,-98.5795'' 0) \<and>
   inflight (the (run init twoCallsTrailing)) 1 = Some (Trailing ''40.7128,-74.006'') \<and>
   fetchLog (the (run init twoCallsTrailing))
     = [(''39.8283'', ''-98.5795''), (''40.7128'', ''-74.006'')]"
  by (simp add: twoCallsTrailing_def twoCalls_def model_defs)

text \<open>
  Claim C2, amended. In every reachable state at most one immediate request is under
  way, and while one is under way the flag \<open>hasExecutedImmediately\<close> is up, so that no
  call can start another, and no timeout of \<open>finally\<close> is pending.
\<close>

theorem one_immediate_in_flight:
  assumes "run init es = Some s"
    and "inflight s f = Some (Immediate k p)"
    and "inflight s f' = Some (Immediate k' p')"
  shows "f' = f \<and> hasExecutedImmediately s \<and> slotTimers s = []"
proof -
  from assms(1) have "invariant s" by (rule reachable_invariant)
  then have "inv_slot s" by (simp add: invariant_def)
  with assms(2,3) show ?thesis
    unfolding inv_slot_def by blast
qed

text \<open>The immediate request of \<open>twoCallsTrailing\<close>.\<close>

theorem one_immediate_in_flight_witness:
  "inflight (the (run init twoCallsTrailing)) 0 = Some (Immediate ''39.8283,-98.5795'' 0) \<and>
   hasExecutedImmediately (the (run init twoCallsTrailing)) \<and>
   slotTimers (the (run init twoCallsTrailing)) = []"
proof -
  let ?s = "the (run init twoCallsTrailing)"
  have r: "run init twoCallsTrailing = Some ?s"
    by (simp add: twoCallsTrailing_def twoCalls_def model_defs)
  have i: "inflight ?s 0 = Some (Immediate ''39.8283,-98.5795'' 0)"
    by (simp add: twoCallsTrailing_def twoCalls_def model_defs)
  from one_immediate_in_flight [OF r i i] i show ?thesis by simp
qed

subsection \<open>C7: the later timeout is idle only after the trailing request has settled\<close>




subsection \<open>C1: a queued burst is settled by the first settlement that resolves the queue\<close>









subsection \<open>C3: a key is served from the cache once a request for it has succeeded\<close>

text \<open>
  Claim C3 says that once a call for a key has been resolved, every later call for that
  key returns the same cached value and sends nothing, also when the first call was
  resolved as a queued caller. A queued caller is resolved with the value of whatever
  request settles, and only the key of that request gets a cache entry. In \<open>twoCalls\<close>
  the second caller is resolved, at 200 ms, with the first key's address; its own key
  has no cache entry, a new call for it at 300 ms returns a pending promise, and the
  timeout at 1200 ms sends a request for it.
\<close>

theorem waiter_key_not_cached:
  "promises (the (run init (twoCalls @
      [Settle 200 0 (Display_name (Some ''Smith County, Kansas''))]))) ! 1
     = Fulfilled (Some ''Smith County, Kansas'') \<and>
   cache (the (run init (twoCalls @
      [Settle 200 0 (Display_name (Some ''Smith County, Kansas''))]))) ''40.7128,-74.006'' = None \<and>
   returned (the (run init (twoCalls @
      [Settle 200 0 (Display_name (Some ''Smith County, Kansas''))])))
      [Call 300 ''40.7128'' ''-74.006''] = [Follows 2] \<and>
   fetchLog (the (run init (twoCalls @
      [Settle 200 0 (Display_name (Some ''Smith County, Kansas'')),
       Call 300 ''40.7128'' ''-74.006'', SlotTimeout 1200])))
     = [(''39.8283'', ''-98.5795''), (''40.7128'', ''-74.006'')]"
  by (simp add: twoCalls_def model_defs)

text \<open>
  A cache entry is never removed, and it changes only when a later request for the same
  key settles with another value.
\<close>

lemma cache_step:
  assumes "step s e = Some s'" and "cache s k = Some v" and "answers k v s e"
  shows "cache s' k = Some v"
  using assms
proof (cases rule: step_cases)
  case (imm_ok t f out k' p result)
  with assms(2,3) show ?thesis by (cases "k' = k") simp_all
next
  case (trail_ok t f out k' result)
  with assms(2,3) show ?thesis by (cases "k' = k") simp_all
qed simp_all

lemma cache_run:
  assumes "run s es = Some s'" and "cache s k = Some v" and "sameAnswer k v s es"
  shows "cache s' k = Some v"
  using assms
proof (induction es arbitrary: s)
  case Nil
  then show ?case by simp
next
  case (Cons e es)
  from Cons.prems(1) obtain s1 where s1: "step s e = Some s1" "run s1 es = Some s'"
    by (auto split: option.splits)
  with Cons.prems(3) have a: "answers k v s e" "sameAnswer k v s1 es" by simp_all
  from s1(1) Cons.prems(2) a(1) have "cache s1 k = Some v" by (rule cache_step)
  from Cons.IH [OF s1(2) this a(2)] show ?case .
qed

text \<open>
  Claim C3, amended. Once a request for the key \<open>k\<close>, immediate or trailing, has settled
  with the value \<open>v\<close>, which resolves the calls waiting on it and gives \<open>k\<close> its cache
  entry, then after any further events, provided that every later request for \<open>k\<close> that
  succeeds delivers \<open>v\<close> again, \<open>k\<close> has the cache entry \<open>v\<close> and a call for \<open>k\<close>, at any
  time \<open>u\<close>, returns \<open>v\<close> as cached and changes nothing: it sends no request. (A call that
  was resolved as a queued caller by a request for another key gives its own key no
  cache entry.)
\<close>

theorem cache_idempotence:
  assumes "inflight s f = Some c" and "contKey c = cacheKey lat lng"
    and "fetchAddress out = Inr v"
    and "step s (Settle t f out) = Some s1"
    and "run s1 es = Some s2"
    and "sameAnswer (cacheKey lat lng) v s1 es"
  shows "cache s2 (cacheKey lat lng) = Some v \<and>
         getAddressFromCoordinates lat lng (s2\<lparr>now := u\<rparr>) = (Resolved v, s2\<lparr>now := u\<rparr>)"
proof -
  from assms(4) assms(1-3) have "cache s1 (cacheKey lat lng) = Some v"
    by (cases rule: step_cases) auto
  from cache_run [OF assms(5) this assms(6)] have "cache s2 (cacheKey lat lng) = Some v" .
  then show ?thesis by (simp add: getAddressFromCoordinates_def)
qed

text \<open>
  The first request of \<open>twoCalls\<close> settles at 200 ms; after \<open>afterFirst\<close> a call for its
  coordinates at 1400 ms is answered from the cache.
\<close>

theorem cache_idempotence_witness:
  "cache (the (run init (twoCalls @
       Settle 200 0 (Display_name (Some ''Smith County, Kansas'')) # afterFirst)))
     ''39.8283,-98.5795'' = Some (Some ''Smith County, Kansas'') \<and>
   getAddressFromCoordinates ''39.8283'' ''-98.5795''
     ((the (run init (twoCalls @
       Settle 200 0 (Display_name (Some ''Smith County, Kansas'')) # afterFirst)))\<lparr>now := 1400\<rparr>)
     = (Resolved (Some ''Smith County, Kansas''),
        (the (run init (twoCalls @
          Settle 200 0 (Display_name (Some ''Smith County, Kansas'')) # afterFirst)))\<lparr>now := 1400\<rparr>)"
proof -
  let ?out = "Display_name (Some ''Smith County, Kansas'')"
  let ?s = "the (run init twoCalls)"
  let ?s1 = "the (run init (twoCalls @ [Settle 200 0 ?out]))"
  let ?s2 = "the (run init (twoCalls @ Settle 200 0 ?out # afterFirst))"
  have i: "inflight ?s 0 = Some (Immediate ''39.8283,-98.5795'' 0)"
    by (simp add: twoCalls_def model_defs)
  have k: "contKey (Immediate ''39.8283,-98.5795'' 0) = cacheKey ''39.8283'' ''-98.5795''"
    by (simp add: cacheKey_def)
  have o: "fetchAddress ?out = Inr (Some ''Smith County, Kansas'')" by simp
  have st: "step ?s (Settle 200 0 ?out) = Some ?s1"
    by (simp add: twoCalls_def model_defs)
  have r: "run ?s1 afterFirst = Some ?s2"
    by (simp add: afterFirst_def twoCalls_def model_defs)
  have a: "sameAnswer (cacheKey ''39.8283'' ''-98.5795'') (Some ''Smith County, Kansas'') ?s1 afterFirst"
    by (simp add: afterFirst_def twoCalls_def model_defs)
  from cache_idempotence [OF i k o st r a, of 1400] show ?thesis
    by (simp add: cacheKey_def)
qed

subsection \<open>C4: a cached key is not dispatched again by a call\<close>

text \<open>
  Claim C4 says that once a key has a cache entry no request is sent for it any more,
  neither by an immediate nor by a trailing call. \<open>#executeTrailing\<close> does not look at the
  cache: it sends a request for \<open>lastArgs\<close>. After \<open>refetch\<close> the second key has a cache
  entry, written at 1500 ms by the immediate request of the second call for it, and
  \<open>lastArgs\<close> still holds its coordinates, because the trailing request sent at 1050 ms has
  not settled; the trailing timeout at 1900 ms sends a third request for that key.
\<close>

theorem cached_key_fetched_again:
  "cache (the (run init refetch)) ''40.7128,-74.006'' = Some (Some ''New York'') \<and>
   lastArgs (the (run init refetch)) = Some (''40.7128'', ''-74.006'') \<and>
   fetchLog (the (run init refetch))
     = [(''39.8283'', ''-98.5795''), (''40.7128'', ''-74.006''), (''40.7128'', ''-74.006'')] \<and>
   fetchLog (the (run init (refetch @ [DebounceTimeout 1900])))
     = [(''39.8283'', ''-98.5795''), (''40.7128'', ''-74.006''), (''40.7128'', ''-74.006''),
        (''40.7128'', ''-74.006'')] \<and>
   inflight (the (run init (refetch @ [DebounceTimeout 1900]))) 3
     = Some (Trailing ''40.7128,-74.006'')"
  by (simp add: refetch_def model_defs)

text \<open>
  While a key has a cache entry, the immediate requests for it that are under way are
  among those sent before; requests are numbered in the order in which they are sent.
\<close>

lemma no_immediate_step:
  assumes "step s e = Some s'"
    and "cache s k \<noteq> None"
    and "\<forall>f p. inflight s f = Some (Immediate k p) \<longrightarrow> f < n"
  shows "cache s' k \<noteq> None \<and> (\<forall>f p. inflight s' f = Some (Immediate k p) \<longrightarrow> f < n)"
  using assms by (cases rule: step_cases) (auto split: if_splits)

lemma no_immediate_run:
  assumes "run s es = Some s'"
    and "cache s k \<noteq> None"
    and "\<forall>f p. inflight s f = Some (Immediate k p) \<longrightarrow> f < n"
  shows "cache s' k \<noteq> None \<and> (\<forall>f p. inflight s' f = Some (Immediate k p) \<longrightarrow> f < n)"
  using assms
proof (induction es arbitrary: s)
  case Nil
  then show ?case by simp
next
  case (Cons e es)
  from Cons.prems(1) obtain s1 where s1: "step s e = Some s1" "run s1 es = Some s'"
    by (auto split: option.splits)
  from no_immediate_step [OF s1(1) Cons.prems(2,3)]
  have "cache s1 k \<noteq> None" "\<forall>f p. inflight s1 f = Some (Immediate k p) \<longrightarrow> f < n"
    by simp_all
  from Cons.IH [OF s1(2) this] show ?case .
qed

text \<open>
  Claim C4, amended. Once a key \<open>k\<close> has a cache entry, in every later state it has one,
  every immediate request for \<open>k\<close> that is under way was sent before \<open>k\<close> got its entry,
  that is, no immediate request is sent for \<open>k\<close> any more, and a call for \<open>k\<close>, at any
  time \<open>u\<close>, is answered from the cache: it returns the cached value and changes nothing,
  so it sends no request.
\<close>

theorem cached_key_no_immediate_dispatch:
  assumes "run init es = Some s"
    and "cache s k \<noteq> None"
    and "run s es' = Some s'"
  shows "cache s' k \<noteq> None \<and>
         (\<forall>f p. inflight s' f = Some (Immediate k p) \<longrightarrow> f < length (fetchLog s)) \<and>
         (\<exists>v. cache s' k = Some v \<and>
            (\<forall>lat lng u. cacheKey lat lng = k \<longrightarrow>
               getAddressFromCoordinates lat lng (s'\<lparr>now := u\<rparr>) = (Resolved v, s'\<lparr>now := u\<rparr>)))"
proof -
  from assms(1) have "invariant s" by (rule reachable_invariant)
  then have "inv_fetch s" by (simp add: invariant_def)
  then have "\<forall>f p. inflight s f = Some (Immediate k p) \<longrightarrow> f < length (fetchLog s)"
    by (simp add: inv_fetch_def)
  from no_immediate_run [OF assms(3,2) this]
  have *: "cache s' k \<noteq> None"
    "\<forall>f p. inflight s' f = Some (Immediate k p) \<longrightarrow> f < length (fetchLog s)"
    by simp_all
  from *(1) obtain v where v: "cache s' k = Some v" by auto
  then have "\<forall>lat lng u. cacheKey lat lng = k \<longrightarrow>
      getAddressFromCoordinates lat lng (s'\<lparr>now := u\<rparr>) = (Resolved v, s'\<lparr>now := u\<rparr>)"
    by (auto simp: getAddressFromCoordinates_def)
  with * v show ?thesis by blast
qed

text \<open>
  After \<open>sameKeyTwice\<close> the trailing request for the second key succeeds at 1050 ms and
  gives the key its cache entry while the immediate request for it (number 2, and three
  requests sent so far) is under way; a call for the key at 1060 ms, and one at 1070 ms,
  are answered from the cache.
\<close>

theorem cached_key_no_immediate_dispatch_witness:
  "cache (the (run init (sameKeyTwice @
      [Settle 1050 1 (Display_name (Some ''New York'')), Call 1060 ''40.7128'' ''-74.006''])))
     ''40.7128,-74.006'' = Some (Some ''New York'') \<and>
   inflight (the (run init (sameKeyTwice @
      [Settle 1050 1 (Display_name (Some ''New York'')), Call 1060 ''40.7128'' ''-74.006''])))
     2 = Some (Immediate ''40.7128,-74.006'' 2) \<and>
   2 < length (fetchLog (the (run init (sameKeyTwice @
      [Settle 1050 1 (Display_name (Some ''New York''))])))) \<and>
   getAddressFromCoordinates ''40.7128'' ''-74.006''
     ((the (run init (sameKeyTwice @
        [Settle 1050 1 (Display_name (Some ''New York'')), Call 1060 ''40.7128'' ''-74.006''])))
      \<lparr>now := 1070\<rparr>)
     = (Resolved (Some ''New York''),
        (the (run init (sameKeyTwice @
          [Settle 1050 1 (Display_name (Some ''New York'')), Call 1060 ''40.7128'' ''-74.006''])))
        \<lparr>now := 1070\<rparr>)"
proof -
  let ?es = "sameKeyTwice @ [Settle 1050 1 (Display_name (Some ''New York''))]"
  let ?s = "the (run init ?es)"
  let ?s' = "the (run init (sameKeyTwice @
      [Settle 1050 1 (Display_name (Some ''New York'')), Call 1060 ''40.7128'' ''-74.006'']))"
  have r: "run init ?es = Some ?s" by (simp add: sameKeyTwice_def model_defs)
  have c: "cache ?s ''40.7128,-74.006'' \<noteq> None" by (simp add: sameKeyTwice_def model_defs)
  have r': "run ?s [Call 1060 ''40.7128'' ''-74.006''] = Some ?s'"
    by (simp add: sameKeyTwice_def model_defs)
  have i: "inflight ?s' 2 = Some (Immediate ''40.7128,-74.006'' 2)"
    by (simp add: sameKeyTwice_def model_defs)
  have k: "cacheKey ''40.7128'' ''-74.006'' = ''40.7128,-74.006''" by (simp add: cacheKey_def)
  have cv: "cache ?s' ''40.7128,-74.006'' = Some (Some ''New York'')"
    by (simp add: sameKeyTwice_def model_defs)
  note th = cached_key_no_immediate_dispatch [OF r c r']
  from th [THEN conjunct2, THEN conjunct2] obtain v where
    v: "cache ?s' ''40.7128,-74.006'' = Some v"
    and g: "\<forall>lat lng u. cacheKey lat lng = ''40.7128,-74.006'' \<longrightarrow>
      getAddressFromCoordinates lat lng (?s'\<lparr>now := u\<rparr>) = (Resolved v, ?s'\<lparr>now := u\<rparr>)"
    by (elim exE conjE)
  from v cv have "v = Some ''New York''" by simp
  with g [rule_format, OF k, of 1070] th [THEN conjunct2, THEN conjunct1, rule_format, OF i] i cv
  show ?thesis by simp
qed

subsection \<open>C5: the entry of a failed immediate request stays until a trailing request for its key settles\<close>

text \<open>
  Claim C5 says that after the failure of an immediate request the entry of its key is
  never removed from \<open>pendingRequests\<close>, so that every later call for the key gets the
  rejected promise and sends nothing. The \<open>finally\<close> block of \<open>#executeTrailing\<close> deletes
  the entry of its own key. After \<open>sameKeyTwice\<close> the immediate request for the second key
  fails at 1040 ms and its entry stays, with a rejected promise; the trailing request
  for the same key fails at 1050 ms and removes the entry; the call at 1060 ms gets a
  new promise, and the timeout at 2040 ms sends a further request for the key.
\<close>

theorem failed_entry_removed:
  "pendingRequests (the (run init (sameKeyTwice @ [Settle 1040 2 Status_not_ok])))
     ''40.7128,-74.006'' = Some 2 \<and>
   promises (the (run init (sameKeyTwice @ [Settle 1040 2 Status_not_ok]))) ! 2 = Rejected \<and>
   pendingRequests (the (run init (sameKeyTwice @
      [Settle 1040 2 Status_not_ok, Settle 1050 1 Fetch_rejected])))
     ''40.7128,-74.006'' = None \<and>
   returned (the (run init (sameKeyTwice @
      [Settle 1040 2 Status_not_ok, Settle 1050 1 Fetch_rejected])))
      [Call 1060 ''40.7128'' ''-74.006''] = [Follows 3] \<and>
   fetchLog (the (run init (sameKeyTwice @
      [Settle 1040 2 Status_not_ok, Settle 1050 1 Fetch_rejected])))
     = [(''39.8283'', ''-98.5795''), (''40.7128'', ''-74.006''), (''40.7128'', ''-74.006'')] \<and>
   fetchLog (the (run init (sameKeyTwice @
      [Settle 1040 2 Status_not_ok, Settle 1050 1 Fetch_rejected,
       Call 1060 ''40.7128'' ''-74.006'', SlotTimeout 2040])))
     = [(''39.8283'', ''-98.5795''), (''40.7128'', ''-74.006''), (''40.7128'', ''-74.006''),
        (''40.7128'', ''-74.006'')]"
  by (simp add: sameKeyTwice_def model_defs)

text \<open>
  A stuck entry survives every event except the settlement of a trailing request for its
  key. An immediate request that succeeds deletes the entry of its own key, but the key
  of a stuck entry has no immediate request under way.
\<close>

lemma stuck_step:
  assumes "step s e = Some s'" and "invariant s" and "stuck k p s"
    and "\<not> settlesTrailing k s e"
  shows "stuck k p s'"
proof -
  from assms(2) have ip: "inv_promises s" and ik: "inv_keys s" by (simp_all add: invariant_def)
  from assms(3) have st: "pendingRequests s k = Some p" "p < length (promises s)"
    "promises s ! p = Rejected"
    by (simp_all add: stuck_def)
  from assms(1) show ?thesis
  proof (cases rule: step_cases)
    case (imm_ok t f out k' q result)
    from ip imm_ok(3) have q: "promises s ! q = Pending" by (auto simp: inv_promises_def)
    with st(3) have "q \<noteq> p" by auto
    moreover have "k' \<noteq> k"
    proof
      assume "k' = k"
      with ik imm_ok(3) st(1) have "p = q" by (auto simp: inv_keys_def)
      with \<open>q \<noteq> p\<close> show False by simp
    qed
    ultimately show ?thesis using imm_ok st
      by (simp add: stuck_def nth_resolveAll length_resolveAll)
  next
    case (imm_fail t f out k' q err)
    with st show ?thesis by (cases "q = p") (simp_all add: stuck_def)
  next
    case (trail_ok t f out k' result)
    with assms(4) have "k' \<noteq> k" by auto
    with trail_ok st show ?thesis by (simp add: stuck_def nth_resolveAll length_resolveAll)
  next
    case (trail_fail t f out k' err)
    with assms(4) have "k' \<noteq> k" by auto
    with trail_fail st show ?thesis by (simp add: stuck_def nth_resolveAll length_resolveAll)
  next
    case (immediate t lat lng)
    with st have "cacheKey lat lng \<noteq> k" by auto
    with immediate st show ?thesis by (simp add: stuck_def nth_append)
  qed (use st in \<open>simp_all add: stuck_def nth_append\<close>)
qed

lemma stuck_run:
  assumes "run s es = Some s'" and "invariant s" and "stuck k p s"
    and "noTrailingSettle k s es"
  shows "stuck k p s' \<and> invariant s'"
  using assms
proof (induction es arbitrary: s)
  case Nil
  then show ?case by simp
next
  case (Cons e es)
  from Cons.prems(1) obtain s1 where s1: "step s e = Some s1" "run s1 es = Some s'"
    by (auto split: option.splits)
  with Cons.prems(4) have n: "\<not> settlesTrailing k s e" "noTrailingSettle k s1 es" by simp_all
  from s1(1) Cons.prems(2,3) n(1) have "stuck k p s1" by (rule stuck_step)
  moreover from Cons.prems(2) s1(1) have "invariant s1" by (rule invariant_step)
  ultimately show ?case using Cons.IH [OF s1(2)] n(2) by blast
qed

text \<open>
  Claim C5, amended. When the immediate request for the key \<open>k\<close> fails while \<open>k\<close> has its
  entry in \<open>pendingRequests\<close>, the failure rejects the promise and leaves the entry, and
  the entry stays through any further events among which no trailing request for \<open>k\<close>
  settles; as long as it stays, every call for \<open>k\<close>, at any time \<open>u\<close>, returns a handle on
  the rejected promise and changes nothing: it sends no request.
\<close>

theorem failed_entry_stays:
  assumes "run init es = Some s"
    and "inflight s f = Some (Immediate k p)"
    and "pendingRequests s k = Some p"
    and "fetchAddress out = Inl err"
    and "step s (Settle t f out) = Some s1"
    and "run s1 es' = Some s2"
    and "noTrailingSettle k s1 es'"
    and "cacheKey lat lng = k"
  shows "pendingRequests s1 k = Some p \<and> promises s1 ! p = Rejected \<and>
         pendingRequests s2 k = Some p \<and> promises s2 ! p = Rejected \<and>
         getAddressFromCoordinates lat lng (s2\<lparr>now := u\<rparr>) = (Follows p, s2\<lparr>now := u\<rparr>)"
proof -
  from assms(1) have inv: "invariant s" by (rule reachable_invariant)
  then have "inv_promises s" by (simp add: invariant_def)
  with assms(2) have p: "p < length (promises s)" by (auto simp: inv_promises_def)
  from assms(5) assms(2-4) p have s1: "stuck k p s1"
    by (cases rule: step_cases) (auto simp: stuck_def)
  from inv assms(5) have "invariant s1" by (rule invariant_step)
  from stuck_run [OF assms(6) this s1 assms(7)] have s2: "stuck k p s2" "invariant s2"
    by simp_all
  from s2(2) have "inv_keys s2" by (simp add: invariant_def)
  with s2(1) have "cache s2 k = None" by (auto simp: inv_keys_def stuck_def)
  with s2(1) assms(8) have
    "getAddressFromCoordinates lat lng (s2\<lparr>now := u\<rparr>) = (Follows p, s2\<lparr>now := u\<rparr>)"
    by (simp add: getAddressFromCoordinates_def stuck_def)
  with s1 s2(1) show ?thesis by (simp add: stuck_def)
qed

text \<open>
  In \<open>twoCalls\<close> the immediate request fails at 200 ms, and the trailing request, for the
  other key, fails at 1200 ms (\<open>allFail\<close>): a call for the first key at 1300 ms gets the
  rejected promise 0.
\<close>

theorem failed_entry_stays_witness:
  "pendingRequests (the (run init (twoCalls @ allFail))) ''39.8283,-98.5795'' = Some 0 \<and>
   promises (the (run init (twoCalls @ allFail))) ! 0 = Rejected \<and>
   getAddressFromCoordinates ''39.8283'' ''-98.5795''
     ((the (run init (twoCalls @ allFail)))\<lparr>now := 1300\<rparr>)
     = (Follows 0, (the (run init (twoCalls @ allFail)))\<lparr>now := 1300\<rparr>)"
proof -
  let ?s = "the (run init twoCalls)"
  let ?s1 = "the (run init (twoCalls @ [Settle 200 0 Fetch_rejected]))"
  let ?s2 = "the (run init (twoCalls @ allFail))"
  have r: "run init twoCalls = Some ?s" by (simp add: twoCalls_def model_defs)
  have i: "inflight ?s 0 = Some (Immediate ''39.8283,-98.5795'' 0)"
    by (simp add: twoCalls_def model_defs)
  have q: "pendingRequests ?s ''39.8283,-98.5795'' = Some 0"
    by (simp add: twoCalls_def model_defs)
  have o: "fetchAddress Fetch_rejected = Inl FetchError" by simp
  have st: "step ?s (Settle 200 0 Fetch_rejected) = Some ?s1"
    by (simp add: twoCalls_def model_defs)
  have r': "run ?s1 [DebounceTimeout 1100, Settle 1200 1 Status_not_ok] = Some ?s2"
    by (simp add: allFail_def twoCalls_def model_defs)
  have n: "noTrailingSettle ''39.8283,-98.5795'' ?s1 [DebounceTimeout 1100, Settle 1200 1 Status_not_ok]"
    by (simp add: twoCalls_def model_defs)
  have k: "cacheKey ''39.8283'' ''-98.5795'' = ''39.8283,-98.5795''" by (simp add: cacheKey_def)
  from failed_entry_stays [OF r i q o st r' n k, of 1300] show ?thesis by simp
qed

end
